theory Spec2Isabelle
  imports Complex_Main "HOL-Library.Multiset"
begin

section \<open>Python values\<close>

text \<open>
  The grading server (\<^verbatim>\<open>agent/webhook_server.py\<close>) passes untyped dictionaries around.
  The values that occur in them are modelled by the datatype \<open>json\<close>.  Text is a list of
  bytes (UTF-8); Python's \<^verbatim>\<open>int\<close> is \<open>int\<close>.  A Python \<^verbatim>\<open>float\<close> is modelled by the exact
  rational a finite value denotes, together with the two infinities and NaN: rounding to
  binary64 is outside the model (no property below depends on it), magnitudes beyond the
  binary64 range become infinities.
\<close>

datatype pyfloat = Finite rat | PosInf | NegInf | NaN

datatype json =
    JNull
  | JBool bool
  | JInt int
  | JFloat pyfloat
  | JStr string
  | JArr "json list"
  | JObj "(string \<times> json) list"

text \<open>
  A raised exception.  \<open>Exception msg\<close> is an exception raised with the message \<open>msg\<close>
  (by the server itself, by the agent runner or by the HTTP client); the other three are
  raised by the built-in \<^verbatim>\<open>float()\<close> and by attribute lookup, and carry the offending value.
  \<^verbatim>\<open>json.JSONDecodeError\<close> never leaves the decoder's caller and is the result \<open>None\<close> of
  \<open>json_loads\<close>.
\<close>

datatype pyexn =
    Exception string
  | ValueError json
  | TypeError json
  | OverflowError json
  | AttributeError json

definition float_limit :: rat where
  "float_limit = 2 ^ 1024 - 2 ^ 970"

definition to_pyfloat :: "rat \<Rightarrow> pyfloat" where
  "to_pyfloat r =
     (if float_limit \<le> r then PosInf else if r \<le> - float_limit then NegInf else Finite r)"

subsection \<open>Characters\<close>

definition is_digit :: "char \<Rightarrow> bool" where
  "is_digit c = (48 \<le> (of_char c :: nat) \<and> (of_char c :: nat) \<le> 57)"

definition is_alpha :: "char \<Rightarrow> bool" where
  "is_alpha c =
     ((65 \<le> (of_char c :: nat) \<and> (of_char c :: nat) \<le> 90)
      \<or> (97 \<le> (of_char c :: nat) \<and> (of_char c :: nat) \<le> 122))"

definition is_space :: "char \<Rightarrow> bool" where
  \<comment> \<open>\<^verbatim>\<open>str.isspace\<close> on the ASCII range\<close>
  "is_space c =
     ((9 \<le> (of_char c :: nat) \<and> (of_char c :: nat) \<le> 13)
      \<or> (28 \<le> (of_char c :: nat) \<and> (of_char c :: nat) \<le> 32))"

definition lower :: "char \<Rightarrow> char" where
  "lower c =
     (if 65 \<le> (of_char c :: nat) \<and> (of_char c :: nat) \<le> 90
      then char_of ((of_char c :: nat) + 32) else c)"

fun digits_val :: "nat \<Rightarrow> string \<Rightarrow> nat" where
  "digits_val acc [] = acc"
| "digits_val acc (c # cs) = digits_val (10 * acc + ((of_char c :: nat) - 48)) cs"

definition scale10 :: "rat \<Rightarrow> int \<Rightarrow> rat" where
  "scale10 m e = (if 0 \<le> e then m * 10 ^ nat e else m / 10 ^ nat (- e))"

subsection \<open>The string methods used by the server\<close>

definition strip :: "string \<Rightarrow> string" where
  \<comment> \<open>\<^verbatim>\<open>str.strip()\<close>\<close>
  "strip s = rev (dropWhile is_space (rev (dropWhile is_space s)))"

fun str_find :: "char \<Rightarrow> string \<Rightarrow> int" where
  \<comment> \<open>\<^verbatim>\<open>s.find(c)\<close>: the index of the first occurrence, or \<open>-1\<close>\<close>
  "str_find c [] = - 1"
| "str_find c (x # xs) = (if x = c then 0 else (let i = str_find c xs in if i = - 1 then - 1 else i + 1))"

definition str_rfind :: "char \<Rightarrow> string \<Rightarrow> int" where
  \<comment> \<open>\<^verbatim>\<open>s.rfind(c)\<close>: the index of the last occurrence, or \<open>-1\<close>\<close>
  "str_rfind c s = (let i = str_find c (rev s) in if i = - 1 then - 1 else int (length s) - 1 - i)"

definition slice :: "string \<Rightarrow> int \<Rightarrow> int \<Rightarrow> string" where
  \<comment> \<open>\<^verbatim>\<open>s[i:j]\<close> for indices that are not negative\<close>
  "slice s i j = take (nat j - nat i) (drop (nat i) s)"

section \<open>The JSON decoder\<close>

text \<open>
  \<^verbatim>\<open>json.loads\<close> of the standard library, on byte strings: the grammar of RFC 8259 with
  Python's extensions \<^verbatim>\<open>NaN\<close>, \<^verbatim>\<open>Infinity\<close> and \<^verbatim>\<open>-Infinity\<close>, control characters refused
  inside strings, \<^verbatim>\<open>\uXXXX\<close> escapes decoded to UTF-8 (surrogate pairs joined), the members
  of an object kept in source order.  The decoder's recursion limit and its limit on the
  number of digits of an integer are not modelled.  The result \<open>None\<close> is
  \<^verbatim>\<open>json.JSONDecodeError\<close>.
\<close>

datatype token =
    TLBrace | TRBrace | TLBrack | TRBrack | TColon | TComma
  | TStr string | TAtom json

definition is_json_ws :: "char \<Rightarrow> bool" where
  "is_json_ws c = (c = CHR '' '' \<or> c = CHR 0x09 \<or> c = CHR 0x0A \<or> c = CHR 0x0D)"

definition hex_val :: "char \<Rightarrow> nat option" where
  "hex_val c =
     (if is_digit c then Some (of_char c - 48)
      else if 97 \<le> (of_char c :: nat) \<and> (of_char c :: nat) \<le> 102 then Some (of_char c - 87)
      else if 65 \<le> (of_char c :: nat) \<and> (of_char c :: nat) \<le> 70 then Some (of_char c - 55)
      else None)"

definition hex4 :: "char \<Rightarrow> char \<Rightarrow> char \<Rightarrow> char \<Rightarrow> nat option" where
  "hex4 a b c d =
     (case (hex_val a, hex_val b, hex_val c, hex_val d) of
        (Some x, Some y, Some z, Some w) \<Rightarrow> Some (((x * 16 + y) * 16 + z) * 16 + w)
      | _ \<Rightarrow> None)"

definition utf8 :: "nat \<Rightarrow> string" where
  "utf8 cp =
     (if cp < 0x80 then [char_of cp]
      else if cp < 0x800 then [char_of (0xC0 + cp div 64), char_of (0x80 + cp mod 64)]
      else if cp < 0x10000 then
        [char_of (0xE0 + cp div 4096), char_of (0x80 + (cp div 64) mod 64),
         char_of (0x80 + cp mod 64)]
      else
        [char_of (0xF0 + cp div 262144), char_of (0x80 + (cp div 4096) mod 64),
         char_of (0x80 + (cp div 64) mod 64), char_of (0x80 + cp mod 64)])"

definition simple_escape :: "char \<Rightarrow> char option" where
  "simple_escape e =
     (if e = CHR 0x22 then Some (CHR 0x22)
      else if e = CHR 0x5C then Some (CHR 0x5C)
      else if e = CHR ''/'' then Some (CHR ''/'')
      else if e = CHR ''b'' then Some (CHR 0x08)
      else if e = CHR ''f'' then Some (CHR 0x0C)
      else if e = CHR ''n'' then Some (CHR 0x0A)
      else if e = CHR ''r'' then Some (CHR 0x0D)
      else if e = CHR ''t'' then Some (CHR 0x09)
      else None)"

text \<open>
  A \<^verbatim>\<open>\uXXXX\<close> escape, read after the \<^verbatim>\<open>\u\<close>: four hexadecimal digits; a high surrogate
  that is followed by the escape of a low surrogate is joined with it.
\<close>

definition low_surrogate :: "string \<Rightarrow> (nat \<times> string) option" where
  "low_surrogate s =
     (case s of
        b # u # a2 # b2 # c2 # d2 # r \<Rightarrow>
          if b = CHR 0x5C \<and> u = CHR ''u'' then
            (case hex4 a2 b2 c2 d2 of
               None \<Rightarrow> None
             | Some lo \<Rightarrow> if 0xDC00 \<le> lo \<and> lo \<le> 0xDFFF then Some (lo, r) else None)
          else None
      | _ \<Rightarrow> None)"

definition unicode_escape :: "string \<Rightarrow> (nat \<times> string) option" where
  "unicode_escape s =
     (case s of
        a # b # c # d # r \<Rightarrow>
          (case hex4 a b c d of
             None \<Rightarrow> None
           | Some hi \<Rightarrow>
               if 0xD800 \<le> hi \<and> hi \<le> 0xDBFF then
                 (case low_surrogate r of
                    None \<Rightarrow> Some (hi, r)
                  | Some (lo, r') \<Rightarrow>
                      Some (0x10000 + (hi - 0xD800) * 1024 + (lo - 0xDC00), r'))
               else Some (hi, r))
      | _ \<Rightarrow> None)"

definition scan_escape :: "string \<Rightarrow> (string \<times> string) option" where
  \<comment> \<open>the escape sequence after a backslash: the decoded bytes and the rest\<close>
  "scan_escape s =
     (case s of
        [] \<Rightarrow> None
      | e # r \<Rightarrow>
          if e = CHR ''u'' then
            (case unicode_escape r of None \<Rightarrow> None | Some (cp, r') \<Rightarrow> Some (utf8 cp, r'))
          else
            (case simple_escape e of None \<Rightarrow> None | Some x \<Rightarrow> Some ([x], r)))"

text \<open>An escape that is read leaves less input; the recursion of the scanner of strings
  terminates for this reason.\<close>

lemma low_surrogate_rest: "low_surrogate s = Some (lo, r) \<Longrightarrow> length r < length s"
  unfolding low_surrogate_def
  by (cases s rule: list.exhaust; simp split: list.splits if_splits option.splits)

lemma unicode_escape_rest: "unicode_escape s = Some (cp, r) \<Longrightarrow> length r < length s"
proof -
  assume a: "unicode_escape s = Some (cp, r)"
  then obtain a b c d r0 where s: "s = a # b # c # d # r0"
    unfolding unicode_escape_def by (auto split: list.splits)
  from a s have "r = r0 \<or> (\<exists>lo. low_surrogate r0 = Some (lo, r))"
    unfolding unicode_escape_def by (auto split: option.splits if_splits)
  then have "length r \<le> length r0"
    using low_surrogate_rest by fastforce
  with s show ?thesis by simp
qed

lemma scan_escape_rest: "scan_escape s = Some (x, r) \<Longrightarrow> length r < length s"
  unfolding scan_escape_def
  by (cases s) (auto split: if_splits option.splits dest: unicode_escape_rest)

text \<open>
  \<open>scanstring acc s\<close> reads the rest of a string literal whose opening quote has been
  consumed, and returns the decoded text with what follows the closing quote.
\<close>

function scanstring :: "string \<Rightarrow> string \<Rightarrow> (string \<times> string) option" where
  "scanstring acc [] = None"
| "scanstring acc (c # cs) =
     (if c = CHR 0x22 then Some (acc, cs)
      else if c = CHR 0x5C then
        (case scan_escape cs of
           None \<Rightarrow> None
         | Some (x, r) \<Rightarrow> scanstring (acc @ x) r)
      else if (of_char c :: nat) < 0x20 then None
      else scanstring (acc @ [c]) cs)"
  by pat_completeness auto
termination
proof (relation "measure (\<lambda>(acc, s). length s)")
  show "wf (measure (\<lambda>(acc, s). length s))" by simp
next
  fix acc :: string and c cs x2 x y
  assume "scan_escape cs = Some x2" "(x, y) = x2"
  then have "length y < length cs" using scan_escape_rest [of cs x y] by simp
  then show "((acc @ x, y), (acc, c # cs)) \<in> measure (\<lambda>(acc, s). length s)" by simp
qed simp

text \<open>
  A number: \<^verbatim>\<open>-?(0|[1-9][0-9]*)(\.[0-9]+)?([eE][-+]?[0-9]+)?\<close>.  Without fraction and
  exponent it is an \<^verbatim>\<open>int\<close>, otherwise a \<^verbatim>\<open>float\<close>.
\<close>

definition scan_sign :: "string \<Rightarrow> bool \<times> string" where
  "scan_sign s =
     (case s of
        [] \<Rightarrow> (False, s)
      | c # r \<Rightarrow> if c = CHR ''-'' then (True, r) else if c = CHR ''+'' then (False, r)
                 else (False, s))"

definition scan_exponent :: "string \<Rightarrow> (int \<times> string) option" where
  \<comment> \<open>an optional exponent part; \<open>None\<close> when the exponent has no digits\<close>
  "scan_exponent s =
     (case s of
        [] \<Rightarrow> Some (0, s)
      | c # r \<Rightarrow>
          if c = CHR ''e'' \<or> c = CHR ''E'' then
            (let (neg, r1) = scan_sign r; ds = takeWhile is_digit r1
             in if ds = [] then None
                else Some ((if neg then - int (digits_val 0 ds) else int (digits_val 0 ds)),
                           dropWhile is_digit r1))
          else Some (0, s))"

definition has_exponent :: "string \<Rightarrow> bool" where
  "has_exponent s = (case s of [] \<Rightarrow> False | c # r \<Rightarrow> c = CHR ''e'' \<or> c = CHR ''E'')"

definition scan_number :: "string \<Rightarrow> json option" where
  "scan_number s =
     (let (neg, s1) = (case s of [] \<Rightarrow> (False, s)
                       | c # r \<Rightarrow> if c = CHR ''-'' then (True, r) else (False, s));
          ip = takeWhile is_digit s1;
          s2 = dropWhile is_digit s1;
          frac = (case s2 of [] \<Rightarrow> False | c # r \<Rightarrow> c = CHR ''.'');
          fp = (if frac then takeWhile is_digit (tl s2) else []);
          s3 = (if frac then dropWhile is_digit (tl s2) else s2)
      in if ip = [] \<or> (1 < length ip \<and> hd ip = CHR ''0'') \<or> (frac \<and> fp = []) then None
         else
           (case scan_exponent s3 of
              None \<Rightarrow> None
            | Some (e, s4) \<Rightarrow>
                if s4 \<noteq> [] then None
                else if \<not> frac \<and> \<not> has_exponent s3 then
                  Some (JInt (if neg then - int (digits_val 0 ip) else int (digits_val 0 ip)))
                else
                  (let m = scale10 (of_nat (digits_val 0 (ip @ fp))) (e - int (length fp))
                   in Some (JFloat (to_pyfloat (if neg then - m else m))))))"

definition scan_atom :: "string \<Rightarrow> json option" where
  "scan_atom s =
     (if s = ''null'' then Some JNull
      else if s = ''true'' then Some (JBool True)
      else if s = ''false'' then Some (JBool False)
      else if s = ''NaN'' then Some (JFloat NaN)
      else if s = ''Infinity'' then Some (JFloat PosInf)
      else if s = ''-Infinity'' then Some (JFloat NegInf)
      else scan_number s)"

definition is_atom_char :: "char \<Rightarrow> bool" where
  \<comment> \<open>the characters of numbers and literals; none of them may follow a value\<close>
  "is_atom_char c = (is_digit c \<or> is_alpha c \<or> c = CHR ''+'' \<or> c = CHR ''-'' \<or> c = CHR ''.'')"

definition cons_token :: "token \<Rightarrow> token list option \<Rightarrow> token list option" where
  "cons_token t r = (case r of None \<Rightarrow> None | Some ts \<Rightarrow> Some (t # ts))"


text \<open>A string literal that is read leaves less input, so that the recursion of the
  tokenizer terminates.\<close>

lemma scanstring_rest: "scanstring acc s = Some (t, r) \<Longrightarrow> length r < length s"
proof (induction acc s arbitrary: t r rule: scanstring.induct)
  case (1 acc)
  then show ?case by simp
next
  case (2 acc c cs)
  show ?case
  proof (cases "c = CHR 0x22")
    case True
    with "2.prems" show ?thesis by simp
  next
    case q: False
    show ?thesis
    proof (cases "c = CHR 0x5C")
      case True
      with q "2.prems" obtain x r0 where e: "scan_escape cs = Some (x, r0)"
        and s: "scanstring (acc @ x) r0 = Some (t, r)"
        by (auto split: option.splits)
      from "2.IH"(1) [OF q True e refl s] have "length r < length r0" .
      with scan_escape_rest [OF e] show ?thesis by simp
    next
      case b: False
      with q "2.prems" have c: "\<not> (of_char c :: nat) < 0x20"
        and s: "scanstring (acc @ [c]) cs = Some (t, r)"
        by (auto split: if_splits)
      from "2.IH"(2) [OF q b c s] show ?thesis by simp
    qed
  qed
qed

function tokens :: "string \<Rightarrow> token list option" where
  "tokens [] = Some []"
| "tokens (c # cs) =
     (if is_json_ws c then tokens cs
      else if c = CHR ''{'' then cons_token TLBrace (tokens cs)
      else if c = CHR ''}'' then cons_token TRBrace (tokens cs)
      else if c = CHR ''['' then cons_token TLBrack (tokens cs)
      else if c = CHR '']'' then cons_token TRBrack (tokens cs)
      else if c = CHR '':'' then cons_token TColon (tokens cs)
      else if c = CHR '','' then cons_token TComma (tokens cs)
      else if c = CHR 0x22 then
        (case scanstring [] cs of
           None \<Rightarrow> None
         | Some (s, r) \<Rightarrow> cons_token (TStr s) (tokens r))
      else if is_atom_char c then
        (case scan_atom (c # takeWhile is_atom_char cs) of
           None \<Rightarrow> None
         | Some v \<Rightarrow> cons_token (TAtom v) (tokens (dropWhile is_atom_char cs)))
      else None)"
  by pat_completeness auto
termination
proof (relation "measure length")
  show "wf (measure length)" by simp
next
  fix c cs x2 x y
  assume "scanstring [] cs = Some x2" "(x, y) = x2"
  then have "length y < length cs" using scanstring_rest [of "[]" cs x y] by simp
  then show "(y, c # cs) \<in> measure length" by simp
qed (auto simp: less_Suc_eq_le length_dropWhile_le)



text \<open>
  The parser is a push-down automaton over the tokens: a stack of the containers that are
  open, and the kind of token expected next.
\<close>

datatype frame =
    FArr "json list"
  | FObj "(string \<times> json) list"
  | FKey "(string \<times> json) list" string

datatype pstate = SValue | SArrFirst | SObjFirst | SKey | SColon | SAfter | SDone json

definition deliver_value :: "json \<Rightarrow> frame list \<Rightarrow> (pstate \<times> frame list) option" where
  \<comment> \<open>a complete value goes to the innermost open container\<close>
  "deliver_value v st =
     (case st of
        [] \<Rightarrow> Some (SDone v, [])
      | FArr es # st' \<Rightarrow> Some (SAfter, FArr (v # es) # st')
      | FKey ms k # st' \<Rightarrow> Some (SAfter, FObj ((k, v) # ms) # st')
      | FObj ms # st' \<Rightarrow> None)"

definition begin_value :: "token \<Rightarrow> frame list \<Rightarrow> (pstate \<times> frame list) option" where
  "begin_value t st =
     (case t of
        TLBrack \<Rightarrow> Some (SArrFirst, FArr [] # st)
      | TLBrace \<Rightarrow> Some (SObjFirst, FObj [] # st)
      | TStr s \<Rightarrow> deliver_value (JStr s) st
      | TAtom v \<Rightarrow> deliver_value v st
      | _ \<Rightarrow> None)"

definition close_array :: "frame list \<Rightarrow> (pstate \<times> frame list) option" where
  "close_array st = (case st of FArr es # st' \<Rightarrow> deliver_value (JArr (rev es)) st' | _ \<Rightarrow> None)"

definition close_object :: "frame list \<Rightarrow> (pstate \<times> frame list) option" where
  "close_object st = (case st of FObj ms # st' \<Rightarrow> deliver_value (JObj (rev ms)) st' | _ \<Rightarrow> None)"

definition read_key :: "token \<Rightarrow> frame list \<Rightarrow> (pstate \<times> frame list) option" where
  "read_key t st =
     (case t of
        TStr k \<Rightarrow> (case st of FObj ms # st' \<Rightarrow> Some (SColon, FKey ms k # st') | _ \<Rightarrow> None)
      | _ \<Rightarrow> None)"

fun pstep :: "pstate \<Rightarrow> frame list \<Rightarrow> token \<Rightarrow> (pstate \<times> frame list) option" where
  "pstep SValue st t = begin_value t st"
| "pstep SArrFirst st t = (if t = TRBrack then close_array st else begin_value t st)"
| "pstep SObjFirst st t = (if t = TRBrace then close_object st else read_key t st)"
| "pstep SKey st t = read_key t st"
| "pstep SColon st t = (if t = TColon then Some (SValue, st) else None)"
| "pstep SAfter st t =
     (case st of
        FArr es # st' \<Rightarrow>
          if t = TComma then Some (SValue, st)
          else if t = TRBrack then close_array st else None
      | FObj ms # st' \<Rightarrow>
          if t = TComma then Some (SKey, st)
          else if t = TRBrace then close_object st else None
      | _ \<Rightarrow> None)"
| "pstep (SDone v) st t = None"

fun parse :: "pstate \<Rightarrow> frame list \<Rightarrow> token list \<Rightarrow> json option" where
  "parse s st [] = (case s of SDone v \<Rightarrow> Some v | _ \<Rightarrow> None)"
| "parse s st (t # ts) =
     (case pstep s st t of None \<Rightarrow> None | Some (s', st') \<Rightarrow> parse s' st' ts)"

definition json_loads :: "string \<Rightarrow> json option" where
  "json_loads s = (case tokens s of None \<Rightarrow> None | Some ts \<Rightarrow> parse SValue [] ts)"

definition dict_get :: "(string \<times> json) list \<Rightarrow> string \<Rightarrow> json \<Rightarrow> json" where
  \<comment> \<open>\<^verbatim>\<open>d.get(k, default)\<close> on a decoded object: of a repeated key the last member counts\<close>
  "dict_get kvs k d = (case map_of (rev kvs) k of None \<Rightarrow> d | Some v \<Rightarrow> v)"

subsection \<open>The built-in \<^verbatim>\<open>float()\<close>\<close>

text \<open>
  On a string, \<^verbatim>\<open>float()\<close> strips white space and reads an optional sign followed by
  \<^verbatim>\<open>inf\<close>, \<^verbatim>\<open>infinity\<close>, \<^verbatim>\<open>nan\<close> (in any case) or a decimal number, in which single underscores
  may separate digits.  Only ASCII digits and ASCII white space are modelled.
\<close>

fun digitsep :: "char option \<Rightarrow> string \<Rightarrow> string option" where
  \<comment> \<open>removes the underscores, each of which must stand between two digits\<close>
  "digitsep p [] = Some []"
| "digitsep p (c # cs) =
     (if c = CHR ''_'' then
        (case (p, cs) of
           (Some a, b # r) \<Rightarrow> if is_digit a \<and> is_digit b then digitsep (Some c) cs else None
         | _ \<Rightarrow> None)
      else (case digitsep (Some c) cs of None \<Rightarrow> None | Some r \<Rightarrow> Some (c # r)))"

definition float_of_str :: "string \<Rightarrow> pyfloat option" where
  "float_of_str s =
     (case digitsep None (strip s) of
        None \<Rightarrow> None
      | Some s1 \<Rightarrow>
          (let (neg, s2) = scan_sign s1;
               word = map lower s2
           in if word = ''inf'' \<or> word = ''infinity'' then Some (if neg then NegInf else PosInf)
              else if word = ''nan'' then Some NaN
              else
                (let ip = takeWhile is_digit s2;
                     s3 = dropWhile is_digit s2;
                     dot = (case s3 of [] \<Rightarrow> False | c # r \<Rightarrow> c = CHR ''.'');
                     fp = (if dot then takeWhile is_digit (tl s3) else []);
                     s4 = (if dot then dropWhile is_digit (tl s3) else s3)
                 in if ip = [] \<and> fp = [] then None
                    else
                      (case scan_exponent s4 of
                         None \<Rightarrow> None
                       | Some (e, s5) \<Rightarrow>
                           if s5 \<noteq> [] then None
                           else
                             (let m = scale10 (of_nat (digits_val 0 (ip @ fp)))
                                        (e - int (length fp))
                              in Some (to_pyfloat (if neg then - m else m)))))))"

definition py_float :: "json \<Rightarrow> pyexn + pyfloat" where
  "py_float v =
     (case v of
        JFloat f \<Rightarrow> Inr f
      | JInt n \<Rightarrow>
          if of_int \<bar>n\<bar> < float_limit then Inr (Finite (of_int n)) else Inl (OverflowError v)
      | JBool b \<Rightarrow> Inr (Finite (if b then 1 else 0))
      | JStr s \<Rightarrow> (case float_of_str s of None \<Rightarrow> Inl (ValueError v) | Some f \<Rightarrow> Inr f)
      | _ \<Rightarrow> Inl (TypeError v))"

section \<open>The grading server\<close>

subsection \<open>Configuration and data\<close>

definition MAX_PARALLEL_TASKS :: nat where
  "MAX_PARALLEL_TASKS = 4"

definition MAX_RETRIES :: nat where
  "MAX_RETRIES = 3"

definition RETRY_DELAY :: nat where
  "RETRY_DELAY = 2"

definition REQUEST_TIMEOUT :: nat where
  "REQUEST_TIMEOUT = 120"

text \<open>
  A submitted question.  The two keys that \<^verbatim>\<open>grade_single_question\<close> reads are fields,
  \<open>None\<close> for a key that is absent; \<^verbatim>\<open>order\<close> is an integer, as \<^verbatim>\<open>GradingResult\<close> declares
  it.  The other keys of a question are only read by \<^verbatim>\<open>format_question_for_agent\<close>, whose
  text goes to the agent.
\<close>

record question =
  q_order :: "int option"
  q_points_possible :: "json option"

text \<open>
  The dictionary \<^verbatim>\<open>parse_agent_response\<close> returns, and the one a grading task returns,
  which has the two keys \<^verbatim>\<open>status\<close> and \<^verbatim>\<open>error_message\<close> in addition.  \<open>error_message\<close>
  holds \<^verbatim>\<open>str(e)\<close>, modelled by the exception \<open>e\<close> itself.
\<close>

record grade =
  question_id :: int
  order :: int
  points_earned :: json
  points_possible :: json
  feedback :: json
  correct_answer :: json

record outcome = grade +
  status :: string
  error_message :: "pyexn option"

record metadata =
  total_questions :: nat
  successful :: nat
  failed :: nat

text \<open>
  \<^verbatim>\<open>final_payload\<close>.  The key \<^verbatim>\<open>webhook_sent\<close> is \<open>None\<close> while the dictionary does not
  have it.  The two clock readings of the metadata (\<^verbatim>\<open>processing_time_seconds\<close>,
  \<^verbatim>\<open>timestamp\<close>) are left out.
\<close>

record payload =
  results :: "outcome list"
  metadata :: metadata
  webhook_sent :: "bool option"

definition payload_keys :: "payload \<Rightarrow> string list" where
  "payload_keys p =
     [''results'', ''metadata''] @ (case webhook_sent p of None \<Rightarrow> [] | Some b \<Rightarrow> [''webhook_sent''])"

text \<open>
  What one run of the agent gives: the concatenated text of its events, a timeout of
  \<^verbatim>\<open>asyncio.wait_for\<close>, or an exception (of session creation or of the runner).
\<close>

datatype agent_run = Responded string | TimedOut | Failed pyexn

text \<open>What one POST to the callback URL gives: a response with its status code, or an
  exception of the HTTP client.\<close>

datatype http_result = Response nat | TransportError pyexn

datatype grade_event = Attempt nat | Backoff nat

datatype delivery_event = Post payload | Delay nat

subsection \<open>\<^verbatim>\<open>parse_agent_response\<close>\<close>

definition fallback_feedback :: string where
  \<comment> \<open>the text of line 218, in UTF-8\<close>
  "fallback_feedback =
     ''Vastauksen k'' @ [CHR 0xC3, CHR 0xA4] @ ''sittelyss'' @ [CHR 0xC3, CHR 0xA4]
       @ '' tapahtui virhe.''"

definition default_grade :: "int \<Rightarrow> grade" where
  "default_grade ord =
     \<lparr>question_id = ord, order = ord, points_earned = JInt 0, points_possible = JInt 3,
      feedback = JStr fallback_feedback, correct_answer = JStr []\<rparr>"

definition json_span :: "string \<Rightarrow> string option" where
  \<comment> \<open>lines 190 to 197: the text from the first \<^verbatim>\<open>{\<close> to the last \<^verbatim>\<open>}\<close>, when there is one\<close>
  "json_span response =
     (let response = strip response;
          start_idx = str_find CHR ''{'' response;
          end_idx = str_rfind CHR ''}'' response + 1
      in if start_idx \<noteq> - 1 \<and> end_idx > start_idx
         then Some (slice response start_idx end_idx) else None)"

definition parse_agent_response :: "string \<Rightarrow> int \<Rightarrow> pyexn + grade" where
  "parse_agent_response response ord =
     (case json_span response of
        None \<Rightarrow> Inr (default_grade ord)
      | Some json_str \<Rightarrow>
          (case json_loads json_str of
             None \<Rightarrow> Inr (default_grade ord)
           | Some (JObj result) \<Rightarrow>
               (case py_float (dict_get result ''points_earned'' (JInt 0)) of
                  Inl e \<Rightarrow> Inl e
                | Inr pe \<Rightarrow>
                    (case py_float (dict_get result ''points_possible'' (JInt 3)) of
                       Inl e \<Rightarrow> Inl e
                     | Inr pp \<Rightarrow>
                         Inr \<lparr>question_id = ord, order = ord,
                              points_earned = JFloat pe, points_possible = JFloat pp,
                              feedback = dict_get result ''feedback'' (JStr []),
                              correct_answer = dict_get result ''correct_answer'' (JStr [])\<rparr>))
           | Some v \<Rightarrow> Inl (AttributeError v)))"

subsection \<open>\<^verbatim>\<open>grade_single_question\<close>\<close>

definition order_of :: "question \<Rightarrow> int" where
  \<comment> \<open>\<^verbatim>\<open>question.get("order", 0)\<close>\<close>
  "order_of q = (case q_order q of None \<Rightarrow> 0 | Some n \<Rightarrow> n)"

definition error_feedback :: string where
  \<comment> \<open>the text of line 141\<close>
  "error_feedback = ''Arvostelua ei voitu suorittaa teknisen virheen vuoksi.''"

definition attempt_once :: "agent_run \<Rightarrow> int \<Rightarrow> pyexn + grade" where
  \<comment> \<open>the body of the \<^verbatim>\<open>try\<close>, lines 83 to 122; the message of the timeout is
      written with the value of \<open>REQUEST_TIMEOUT\<close>\<close>
  "attempt_once r ord =
     (case r of
        Failed e \<Rightarrow> Inl e
      | TimedOut \<Rightarrow> Inl (Exception ''Timeout after 120s'')
      | Responded response_text \<Rightarrow> parse_agent_response response_text ord)"

definition exhausted :: "question \<Rightarrow> pyexn \<Rightarrow> outcome" where
  \<comment> \<open>the dictionary of lines 136 to 145\<close>
  "exhausted q e =
     \<lparr>question_id = order_of q, order = order_of q, points_earned = JInt 0,
      points_possible = (case q_points_possible q of None \<Rightarrow> JInt 3 | Some v \<Rightarrow> v),
      feedback = JStr error_feedback, correct_answer = JStr [],
      status = ''error'', error_message = Some e\<rparr>"

text \<open>
  The \<^verbatim>\<open>for\<close> loop over \<^verbatim>\<open>range(MAX_RETRIES)\<close>, with the attempts that are left as a list.
  A loop that ends without \<^verbatim>\<open>return\<close> makes the function return Python's \<^verbatim>\<open>None\<close>, the
  result \<open>None\<close> here.  The second component is what the task did: each attempt it
  started and each \<^verbatim>\<open>asyncio.sleep\<close>.
\<close>

fun grade_attempts ::
  "(nat \<Rightarrow> agent_run) \<Rightarrow> question \<Rightarrow> nat list \<Rightarrow> outcome option \<times> grade_event list" where
  "grade_attempts run q [] = (None, [])"
| "grade_attempts run q (attempt # rest) =
     (case attempt_once (run attempt) (order_of q) of
        Inr result \<Rightarrow>
          (Some (grade.extend result \<lparr>status = ''success'', error_message = None\<rparr>),
           [Attempt attempt])
      | Inl e \<Rightarrow>
          if attempt < MAX_RETRIES - 1 then
            (let (r, evs) = grade_attempts run q rest
             in (r, Attempt attempt # Backoff (RETRY_DELAY * (attempt + 1)) # evs))
          else (Some (exhausted q e), [Attempt attempt]))"

definition grade_single_question ::
  "(nat \<Rightarrow> agent_run) \<Rightarrow> question \<Rightarrow> outcome option \<times> grade_event list" where
  "grade_single_question run q = grade_attempts run q [0..<MAX_RETRIES]"

subsection \<open>\<^verbatim>\<open>process_all_questions\<close>\<close>

text \<open>
  \<^verbatim>\<open>asyncio.gather(*tasks, return_exceptions=True)\<close>.  The tasks run concurrently and finish
  in some order, given by \<open>completion\<close>: the indices of the tasks, in the order in which
  they finish.  \<open>gather\<close> waits for all of them and returns their results in the order of
  the tasks; a task that raised contributes its exception as a value (\<open>Inl\<close>).
\<close>

definition gather :: "nat list \<Rightarrow> 'a list \<Rightarrow> 'a list" where
  "gather completion tasks = map snd (sort_key fst (map (\<lambda>i. (i, tasks ! i)) completion))"

definition unhandled_feedback :: string where
  \<comment> \<open>the text of line 260\<close>
  "unhandled_feedback = ''Tekninen virhe arvioinnissa.''"

definition unhandled :: "question list \<Rightarrow> nat \<Rightarrow> pyexn \<Rightarrow> outcome" where
  \<comment> \<open>the dictionary of lines 255 to 264\<close>
  "unhandled questions i e =
     \<lparr>question_id = int i,
      order = (case q_order (questions ! i) of None \<Rightarrow> int i | Some n \<Rightarrow> n),
      points_earned = JInt 0, points_possible = JInt 3,
      feedback = JStr unhandled_feedback, correct_answer = JStr [],
      status = ''error'', error_message = Some e\<rparr>"

definition collect ::
  "question list \<Rightarrow> (pyexn + outcome option) list \<Rightarrow> outcome option list" where
  \<comment> \<open>the loop of lines 251 to 266\<close>
  "collect questions gathered =
     map (\<lambda>(i, result). case result of Inl e \<Rightarrow> Some (unhandled questions i e) | Inr r \<Rightarrow> r)
       (enumerate 0 gathered)"

definition sync_ids :: "outcome list \<Rightarrow> outcome list" where
  \<comment> \<open>the loop of lines 272 to 276\<close>
  "sync_ids rs = map (\<lambda>r. r\<lparr>question_id := order r\<rparr>) rs"

definition recheck :: "outcome list \<Rightarrow> outcome list" where
  \<comment> \<open>lines 279 to 285\<close>
  "recheck rs =
     (let orders = map order rs;
          expected_orders = map int [0..<length rs]
      in if orders \<noteq> expected_orders then map (\<lambda>r. r\<lparr>question_id := order r\<rparr>) rs else rs)"

definition summary :: "question list \<Rightarrow> outcome list \<Rightarrow> metadata" where
  \<comment> \<open>lines 293 to 299\<close>
  "summary questions rs =
     \<lparr>total_questions = length questions,
      successful = length (filter (\<lambda>r. status r = ''success'') rs),
      failed = length (filter (\<lambda>r. status r = ''error'') rs)\<rparr>"

definition posted_ok :: "http_result \<Rightarrow> bool" where
  \<comment> \<open>the \<^verbatim>\<open>try\<close> of lines 306 to 313 ends without an exception: \<^verbatim>\<open>raise_for_status\<close>
      raises unless the status code is a 2xx\<close>
  "posted_ok r = (case r of Response code \<Rightarrow> 200 \<le> code \<and> code \<le> 299 | TransportError e \<Rightarrow> False)"

text \<open>
  The loop of lines 304 to 319, with the attempts that are left as a list: whether a POST
  succeeded, and what the loop did (each POST with its body, each \<^verbatim>\<open>asyncio.sleep\<close>).
\<close>

fun send_attempts ::
  "(nat \<Rightarrow> http_result) \<Rightarrow> payload \<Rightarrow> nat list \<Rightarrow> bool \<times> delivery_event list" where
  "send_attempts post p [] = (False, [])"
| "send_attempts post p (attempt # rest) =
     (if posted_ok (post attempt) then (True, [Post p])
      else
        (let (ok, evs) = send_attempts post p rest
         in (ok, Post p # (if attempt < MAX_RETRIES - 1 then [Delay RETRY_DELAY] else []) @ evs)))"

text \<open>
  \<open>run i k\<close> is what the agent gives to attempt \<open>k\<close> of the task of question \<open>i\<close>, and
  \<open>post k\<close> what the callback URL gives to POST number \<open>k\<close>.  Sorting a list that holds
  \<^verbatim>\<open>None\<close> raises \<^verbatim>\<open>TypeError\<close> in the key function.
\<close>

definition process_all_questions ::
  "nat list \<Rightarrow> (nat \<Rightarrow> nat \<Rightarrow> agent_run) \<Rightarrow> (nat \<Rightarrow> http_result) \<Rightarrow> question list
     \<Rightarrow> pyexn + payload \<times> delivery_event list" where
  "process_all_questions completion run post questions =
     (let tasks = map (\<lambda>(i, q). Inr (fst (grade_single_question (run i) q)))
                    (enumerate 0 questions);
          gathered = gather completion tasks
      in case those (collect questions gathered) of
           None \<Rightarrow> Inl (TypeError JNull)
         | Some processed_results \<Rightarrow>
             (let processed_results = recheck (sync_ids (sort_key order processed_results));
                  final_payload =
                    \<lparr>results = processed_results,
                     metadata = summary questions processed_results,
                     webhook_sent = None\<rparr>;
                  (webhook_success, evs) = send_attempts post final_payload [0..<MAX_RETRIES]
              in Inr (final_payload\<lparr>webhook_sent := Some webhook_success\<rparr>, evs)))"

subsection \<open>The semaphore\<close>

text \<open>
  The tasks of a batch share one \<^verbatim>\<open>asyncio.Semaphore(MAX_PARALLEL_TASKS)\<close>, and the whole
  retry loop of a task runs inside \<^verbatim>\<open>async with semaphore\<close>.  The interleavings of the
  tasks are the runs of a transition system.  A task is waiting for the semaphore, has
  attempt \<open>k\<close> in flight, sleeps after attempt \<open>k\<close> failed, or has left the \<^verbatim>\<open>async with\<close>
  block.  A step is taken by one task: it acquires the semaphore, which needs a free
  permit; its attempt succeeds and it returns; its attempt fails, and it goes to sleep or,
  after the last attempt, returns; it wakes up and starts the next attempt.  Leaving the
  block gives the permit back.
\<close>

datatype phase = Waiting | Running nat | Sleeping nat | Finished

datatype action = Acquire nat | Succeed nat | Fail nat | Wake nat

record sched =
  permits :: nat
  phases :: "phase list"

definition init_sched :: "nat \<Rightarrow> sched" where
  "init_sched n = \<lparr>permits = MAX_PARALLEL_TASKS, phases = replicate n Waiting\<rparr>"

definition phase_of :: "sched \<Rightarrow> nat \<Rightarrow> phase option" where
  "phase_of s i = (if i < length (phases s) then Some (phases s ! i) else None)"

definition move :: "sched \<Rightarrow> nat \<Rightarrow> phase \<Rightarrow> sched" where
  "move s i p = s\<lparr>phases := (phases s)[i := p]\<rparr>"

definition release :: "sched \<Rightarrow> sched" where
  "release s = s\<lparr>permits := permits s + 1\<rparr>"

fun step :: "action \<Rightarrow> sched \<Rightarrow> sched option" where
  "step (Acquire i) s =
     (if phase_of s i = Some Waiting \<and> 0 < permits s
      then Some (move (s\<lparr>permits := permits s - 1\<rparr>) i (Running 0)) else None)"
| "step (Succeed i) s =
     (case phase_of s i of
        Some (Running k) \<Rightarrow> Some (release (move s i Finished))
      | _ \<Rightarrow> None)"
| "step (Fail i) s =
     (case phase_of s i of
        Some (Running k) \<Rightarrow>
          if k < MAX_RETRIES - 1 then Some (move s i (Sleeping k))
          else Some (release (move s i Finished))
      | _ \<Rightarrow> None)"
| "step (Wake i) s =
     (case phase_of s i of
        Some (Sleeping k) \<Rightarrow> Some (move s i (Running (Suc k)))
      | _ \<Rightarrow> None)"

fun exec :: "action list \<Rightarrow> sched \<Rightarrow> sched option" where
  "exec [] s = Some s"
| "exec (a # as) s = (case step a s of None \<Rightarrow> None | Some s' \<Rightarrow> exec as s')"

definition in_flight :: "phase \<Rightarrow> bool" where
  "in_flight p = (case p of Running k \<Rightarrow> True | _ \<Rightarrow> False)"

definition holding :: "phase \<Rightarrow> bool" where
  \<comment> \<open>inside the \<^verbatim>\<open>async with\<close> block\<close>
  "holding p = (case p of Running k \<Rightarrow> True | Sleeping k \<Rightarrow> True | _ \<Rightarrow> False)"

definition balanced :: "sched \<Rightarrow> bool" where
  \<comment> \<open>every permit is either free or held by a task inside the block\<close>
  "balanced s = (permits s + length (filter holding (phases s)) = MAX_PARALLEL_TASKS)"

subsection \<open>Writing JSON text\<close>

definition quoted :: "string \<Rightarrow> string" where
  \<comment> \<open>a text between double quotes\<close>
  "quoted s = CHR 0x22 # s @ [CHR 0x22]"

subsection \<open>Reading what the delivery loop did\<close>

fun posts :: "delivery_event list \<Rightarrow> payload list" where
  \<comment> \<open>the bodies of the POSTs, in order\<close>
  "posts [] = []"
| "posts (Post b # evs) = b # posts evs"
| "posts (Delay d # evs) = posts evs"

fun delays :: "delivery_event list \<Rightarrow> nat list" where
  \<comment> \<open>the lengths of the sleeps, in order\<close>
  "delays [] = []"
| "delays (Post b # evs) = delays evs"
| "delays (Delay d # evs) = d # delays evs"


section \<open>Properties\<close>


lemma range_MAX_RETRIES: "[0..<MAX_RETRIES] = [0, 1, 2]"
  by (simp add: MAX_RETRIES_def upt_rec)

lemma parse_agent_response_ids:
  "parse_agent_response response ord = Inr g \<Longrightarrow> question_id g = ord \<and> order g = ord"
  by (auto simp: parse_agent_response_def default_grade_def
           split: option.splits json.splits sum.splits)

lemma attempt_once_ids:
  "attempt_once r ord = Inr g \<Longrightarrow> question_id g = ord \<and> order g = ord"
  by (cases r) (auto simp: attempt_once_def dest: parse_agent_response_ids)

lemma insort_key_map:
  "insort_key f (g x) (map g ys) = map g (insort_key (\<lambda>a. f (g a)) x ys)"
  by (induction ys) auto

lemma sort_key_map: "sort_key f (map g xs) = map g (sort_key (\<lambda>a. f (g a)) xs)"
  by (induction xs) (auto simp: insort_key_map)

lemma gather_all:
  assumes "mset completion = mset [0..<length tasks]"
  shows "gather completion tasks = tasks"
proof -
  have "sort completion = sort [0..<length tasks]"
    using assms by (metis sorted_list_of_multiset_mset)
  then have s: "sort_key (\<lambda>i. i) completion = [0..<length tasks]" by simp
  have "gather completion tasks = map (\<lambda>i. tasks ! i) (sort_key (\<lambda>i. i) completion)"
    by (simp add: gather_def sort_key_map comp_def)
  with s show ?thesis by (simp add: map_nth)
qed

text \<open>The task of a question returns a dictionary, whose identifiers are the question's order.\<close>

lemma grade_attempts_returns:
  "as \<noteq> [] \<Longrightarrow> last as = MAX_RETRIES - 1 \<Longrightarrow>
   \<exists>r. fst (grade_attempts run q as) = Some r
       \<and> question_id r = order_of q \<and> order r = order_of q"
proof (induction as)
  case Nil
  then show ?case by simp
next
  case (Cons a as)
  show ?case
  proof (cases "attempt_once (run a) (order_of q)")
    case (Inr g)
    then show ?thesis
      using attempt_once_ids [OF Inr] by (simp add: grade.defs)
  next
    case (Inl e)
    show ?thesis
    proof (cases "a < MAX_RETRIES - 1")
      case True
      with Cons.prems have "as \<noteq> []" by (auto split: if_splits)
      moreover from this Cons.prems have "last as = MAX_RETRIES - 1" by simp
      ultimately obtain r where "fst (grade_attempts run q as) = Some r"
        "question_id r = order_of q" "order r = order_of q"
        using Cons.IH by blast
      with Inl True show ?thesis by (simp add: split_beta)
    next
      case False
      with Inl show ?thesis by (simp add: exhausted_def)
    qed
  qed
qed

lemma grade_single_question_returns:
  "\<exists>r. fst (grade_single_question run q) = Some r
       \<and> question_id r = order_of q \<and> order r = order_of q"
  unfolding grade_single_question_def
  by (rule grade_attempts_returns) (simp_all add: range_MAX_RETRIES MAX_RETRIES_def)

lemma collect_returned:
  "map (\<lambda>(i, result). case result of Inl e \<Rightarrow> Some (F i e) | Inr r \<Rightarrow> r)
     (enumerate n (map Inr xs)) = xs"
  by (induction xs arbitrary: n) auto

lemma those_map_Some: "those (map Some xs) = Some xs"
  by (induction xs) auto

lemma sync_ids_same: "\<forall>r\<in>set rs. question_id r = order r \<Longrightarrow> sync_ids rs = rs"
  by (simp add: sync_ids_def map_idI)

lemma recheck_same: "\<forall>r\<in>set rs. question_id r = order r \<Longrightarrow> recheck rs = rs"
  by (simp add: recheck_def Let_def map_idI)

text \<open>
  When every task has finished, the function returns: the results are the outcomes of
  the tasks, sorted by their order.
\<close>

lemma process_all_questions_returns:
  assumes "mset completion = mset [0..<length questions]"
  shows "\<exists>os b. length os = length questions
    \<and> (\<forall>i<length questions.
          fst (grade_single_question (run i) (questions ! i)) = Some (os ! i)
          \<and> question_id (os ! i) = order_of (questions ! i)
          \<and> order (os ! i) = order_of (questions ! i))
    \<and> b = \<lparr>results = sort_key order os, metadata = summary questions (sort_key order os),
           webhook_sent = None\<rparr>
    \<and> process_all_questions completion run post questions =
        Inr (b\<lparr>webhook_sent := Some (fst (send_attempts post b [0..<MAX_RETRIES]))\<rparr>,
             snd (send_attempts post b [0..<MAX_RETRIES]))"
proof -
  define os where
    "os = map (\<lambda>i. the (fst (grade_single_question (run i) (questions ! i))))
            [0..<length questions]"
  define tasks :: "(pyexn + outcome option) list" where
    "tasks = map (\<lambda>(i, q). Inr (fst (grade_single_question (run i) q))) (enumerate 0 questions)"
  have len: "length os = length questions" by (simp add: os_def)
  have each: "fst (grade_single_question (run i) (questions ! i)) = Some (os ! i)
      \<and> question_id (os ! i) = order_of (questions ! i)
      \<and> order (os ! i) = order_of (questions ! i)" if "i < length questions" for i
    using grade_single_question_returns [of "run i" "questions ! i"] that
    by (auto simp: os_def)
  have tasks: "tasks = map Inr (map Some os)"
  proof (rule nth_equalityI)
    show "length tasks = length (map Inr (map Some os))" by (simp add: tasks_def len)
  next
    fix i assume "i < length tasks"
    then have i: "i < length questions" by (simp add: tasks_def)
    then show "tasks ! i = map Inr (map Some os) ! i"
      using each [OF i] by (simp add: tasks_def len nth_enumerate_eq)
  qed
  have ids: "\<forall>r\<in>set os. question_id r = order r"
    using each len by (metis in_set_conv_nth)
  then have sids: "\<forall>r\<in>set (sort_key order os). question_id r = order r" by simp
  have g: "gather completion tasks = tasks"
    by (rule gather_all) (simp add: tasks_def assms)
  have "collect questions (map Inr (map Some os)) = map Some os"
    unfolding collect_def by (rule collect_returned)
  then have c: "those (collect questions tasks) = Some os"
    unfolding tasks by (simp only: those_map_Some)
  have r: "recheck (sync_ids (sort_key order os)) = sort_key order os"
    using sids by (simp add: sync_ids_same recheck_same)
  have "process_all_questions completion run post questions =
      Inr (\<lparr>results = sort_key order os, metadata = summary questions (sort_key order os),
            webhook_sent = None\<rparr>
            \<lparr>webhook_sent := Some (fst (send_attempts post
               \<lparr>results = sort_key order os, metadata = summary questions (sort_key order os),
                webhook_sent = None\<rparr> [0..<MAX_RETRIES]))\<rparr>,
           snd (send_attempts post
               \<lparr>results = sort_key order os, metadata = summary questions (sort_key order os),
                webhook_sent = None\<rparr> [0..<MAX_RETRIES]))"
    unfolding process_all_questions_def
    using g c r by (simp add: tasks_def [symmetric] Let_def split_beta)
  with len each show ?thesis by blast
qed

lemma grade_single_question_exhausted:
  assumes "\<forall>k<MAX_RETRIES. attempt_once (run k) (order_of q) = Inl (e k)"
  shows "grade_single_question run q =
    (Some (exhausted q (e (MAX_RETRIES - 1))),
     [Attempt 0, Backoff RETRY_DELAY, Attempt 1, Backoff (RETRY_DELAY * 2), Attempt 2])"
proof -
  have "attempt_once (run 0) (order_of q) = Inl (e 0)"
    "attempt_once (run 1) (order_of q) = Inl (e 1)"
    "attempt_once (run 2) (order_of q) = Inl (e 2)"
    using assms by (simp_all add: MAX_RETRIES_def)
  then show ?thesis
    unfolding grade_single_question_def range_MAX_RETRIES
    by (simp add: MAX_RETRIES_def)
qed





text \<open>
  C2. In the payload that \<open>process_all_questions\<close> returns, every result has
  \<open>question_id = order\<close>, whatever the agent answered.  Two facts behind it are part of
  the statement: the loop of lines 272 to 285 forces the equality on any list of
  collected results (also on the dictionaries of the defensive branch, whose
  \<open>question_id\<close> is the position), and \<open>parse_agent_response\<close> takes both identifiers
  from its argument \<open>ord\<close>, never from the decoded object.
\<close>

theorem question_id_is_order:
  assumes "mset completion = mset [0..<length questions]"
  shows "(\<exists>p evs. process_all_questions completion run post questions = Inr (p, evs)
          \<and> (\<forall>r\<in>set (results p). question_id r = order r))
    \<and> (\<forall>r\<in>set (recheck (sync_ids (sort_key order rs))). question_id r = order r)
    \<and> (parse_agent_response response ord = Inr g \<longrightarrow> question_id g = ord \<and> order g = ord)"
proof -
  from process_all_questions_returns [OF assms, of run post]
  obtain os b where len: "length os = length questions"
    and each: "\<And>i. i < length questions \<Longrightarrow>
          question_id (os ! i) = order_of (questions ! i)
          \<and> order (os ! i) = order_of (questions ! i)"
    and b: "b = \<lparr>results = sort_key order os, metadata = summary questions (sort_key order os),
           webhook_sent = None\<rparr>"
    and p: "process_all_questions completion run post questions =
        Inr (b\<lparr>webhook_sent := Some (fst (send_attempts post b [0..<MAX_RETRIES]))\<rparr>,
             snd (send_attempts post b [0..<MAX_RETRIES]))"
    by blast
  have "\<forall>r\<in>set os. question_id r = order r"
    using each len by (metis in_set_conv_nth)
  then have 1: "\<exists>p evs. process_all_questions completion run post questions = Inr (p, evs)
          \<and> (\<forall>r\<in>set (results p). question_id r = order r)"
    using p by (simp add: b)
  have "\<forall>r\<in>set (sync_ids xs). question_id r = order r" for xs
    by (simp add: sync_ids_def)
  then have 2: "\<forall>r\<in>set (recheck (sync_ids (sort_key order rs))). question_id r = order r"
    by (simp add: recheck_same)
  from 1 2 show ?thesis
    using parse_agent_response_ids by blast
qed

lemma parse_foreign_id:
  "parse_agent_response (''{'' @ quoted ''question_id'' @ '': 99}'') 7 =
     Inr \<lparr>question_id = 7, order = 7, points_earned = JFloat (Finite 0),
          points_possible = JFloat (Finite 3), feedback = JStr [], correct_answer = JStr []\<rparr>"
proof -
  have span: "json_span (''{'' @ quoted ''question_id'' @ '': 99}'')
      = Some (''{'' @ quoted ''question_id'' @ '': 99}'')"
    by code_simp
  have loads: "json_loads (''{'' @ quoted ''question_id'' @ '': 99}'')
      = Some (JObj [(''question_id'', JInt 99)])"
    by code_simp
  show ?thesis
    using span loads
    by (simp add: parse_agent_response_def dict_get_def py_float_def float_limit_def)
qed

theorem question_id_is_order_witness:
  "mset [0] = mset [0..<length [\<lparr>q_order = Some 7, q_points_possible = None\<rparr>]]
   \<and> parse_agent_response (''{'' @ quoted ''question_id'' @ '': 99}'') 7 =
       Inr \<lparr>question_id = 7, order = 7, points_earned = JFloat (Finite 0),
            points_possible = JFloat (Finite 3), feedback = JStr [], correct_answer = JStr []\<rparr>
   \<and> (\<exists>p evs.
         process_all_questions [0]
           (\<lambda>i k. Responded (''{'' @ quoted ''question_id'' @ '': 99}''))
           (\<lambda>k. Response 200) [\<lparr>q_order = Some 7, q_points_possible = None\<rparr>] = Inr (p, evs)
         \<and> (\<forall>r\<in>set (results p). question_id r = order r))"
proof -
  have perm: "mset [0] = mset [0..<length [\<lparr>q_order = Some 7, q_points_possible = None\<rparr>]]"
    by simp
  from question_id_is_order [OF perm,
      of "\<lambda>i k. Responded (''{'' @ quoted ''question_id'' @ '': 99}'')" "\<lambda>k. Response 200"]
  have "\<exists>p evs.
         process_all_questions [0]
           (\<lambda>i k. Responded (''{'' @ quoted ''question_id'' @ '': 99}''))
           (\<lambda>k. Response 200) [\<lparr>q_order = Some 7, q_points_possible = None\<rparr>] = Inr (p, evs)
         \<and> (\<forall>r\<in>set (results p). question_id r = order r)"
    by blast
  with perm parse_foreign_id show ?thesis by blast
qed



text \<open>
  C5. \<open>grade_single_question\<close> has no way to raise: for every agent it returns a
  dictionary.  When each of the \<open>MAX_RETRIES\<close> attempts fails, with errors \<open>e 0\<close>,
  \<open>e 1\<close>, \<open>e 2\<close>, the dictionary has status \<open>error\<close>, no points earned, the
  \<open>points_possible\<close> of the question (3 when it declares none), the fixed Finnish
  message, and the last error in \<open>error_message\<close>; the task has made three attempts
  and slept between them.
\<close>

theorem retries_exhausted:
  "(\<exists>r evs. grade_single_question run q = (Some r, evs))
   \<and> ((\<forall>k<MAX_RETRIES. attempt_once (run k) (order_of q) = Inl (e k)) \<longrightarrow>
        grade_single_question run q =
          (Some \<lparr>question_id = order_of q, order = order_of q, points_earned = JInt 0,
                 points_possible = (case q_points_possible q of None \<Rightarrow> JInt 3 | Some v \<Rightarrow> v),
                 feedback = JStr error_feedback, correct_answer = JStr [],
                 status = ''error'', error_message = Some (e (MAX_RETRIES - 1))\<rparr>,
           [Attempt 0, Backoff RETRY_DELAY, Attempt 1, Backoff (RETRY_DELAY * 2), Attempt 2]))"
proof
  from grade_single_question_returns [of run q]
  show "\<exists>r evs. grade_single_question run q = (Some r, evs)"
    by (metis prod.collapse)
next
  show "(\<forall>k<MAX_RETRIES. attempt_once (run k) (order_of q) = Inl (e k)) \<longrightarrow>
        grade_single_question run q =
          (Some \<lparr>question_id = order_of q, order = order_of q, points_earned = JInt 0,
                 points_possible = (case q_points_possible q of None \<Rightarrow> JInt 3 | Some v \<Rightarrow> v),
                 feedback = JStr error_feedback, correct_answer = JStr [],
                 status = ''error'', error_message = Some (e (MAX_RETRIES - 1))\<rparr>,
           [Attempt 0, Backoff RETRY_DELAY, Attempt 1, Backoff (RETRY_DELAY * 2), Attempt 2])"
    using grade_single_question_exhausted [of run q e] by (simp add: exhausted_def)
qed

theorem retries_exhausted_witness:
  "attempt_once TimedOut (order_of \<lparr>q_order = Some 4, q_points_possible = Some (JInt 5)\<rparr>)
     = Inl (Exception ''Timeout after 120s'')
   \<and> grade_single_question (\<lambda>k. TimedOut) \<lparr>q_order = Some 4, q_points_possible = Some (JInt 5)\<rparr> =
       (Some \<lparr>question_id = 4, order = 4, points_earned = JInt 0, points_possible = JInt 5,
              feedback = JStr error_feedback, correct_answer = JStr [],
              status = ''error'', error_message = Some (Exception ''Timeout after 120s'')\<rparr>,
        [Attempt 0, Backoff 2, Attempt 1, Backoff 4, Attempt 2])"
proof -
  let ?q = "\<lparr>q_order = Some 4, q_points_possible = Some (JInt 5)\<rparr>"
  have t: "attempt_once TimedOut (order_of ?q) = Inl (Exception ''Timeout after 120s'')"
    by (simp add: attempt_once_def)
  then have "\<forall>k<MAX_RETRIES. attempt_once ((\<lambda>k. TimedOut) k) (order_of ?q)
      = Inl ((\<lambda>k. Exception ''Timeout after 120s'') k)"
    by simp
  with retries_exhausted [of "\<lambda>k. TimedOut" ?q "\<lambda>k. Exception ''Timeout after 120s''"]
  have "grade_single_question (\<lambda>k. TimedOut) ?q =
       (Some \<lparr>question_id = 4, order = 4, points_earned = JInt 0, points_possible = JInt 5,
              feedback = JStr error_feedback, correct_answer = JStr [],
              status = ''error'', error_message = Some (Exception ''Timeout after 120s'')\<rparr>,
        [Attempt 0, Backoff 2, Attempt 1, Backoff 4, Attempt 2])"
    by (simp add: order_of_def RETRY_DELAY_def)
  with t show ?thesis by simp
qed

lemma two_in_filter:
  assumes "i < length xs" "j < length xs" "i \<noteq> j" "P (xs ! i)" "P (xs ! j)"
  shows "2 \<le> length (filter P xs)"
proof -
  have "{i, j} \<subseteq> {k. k < length xs \<and> P (xs ! k)}"
    using assms by simp
  then have "card {i, j} \<le> card {k. k < length xs \<and> P (xs ! k)}"
    by (intro card_mono) simp_all
  then show ?thesis
    using assms(3) by (simp add: length_filter_conv_card)
qed

text \<open>
  C10. A question without the key \<open>order\<close> is graded like any other, with order 0:
  the outcome of its task has \<open>order = 0\<close> and \<open>question_id = 0\<close> and is among the
  results.  When another question of the batch has the order 0, at least two results
  have the order 0, and nothing in them tells the two questions apart.
\<close>

theorem missing_order_is_zero:
  assumes "mset completion = mset [0..<length questions]"
    and "i < length questions" and "q_order (questions ! i) = None"
  shows "\<exists>p evs r. process_all_questions completion run post questions = Inr (p, evs)
    \<and> fst (grade_single_question (run i) (questions ! i)) = Some r
    \<and> order r = 0 \<and> question_id r = 0 \<and> r \<in> set (results p)
    \<and> (\<forall>j<length questions. q_order (questions ! j) = Some 0
          \<longrightarrow> 2 \<le> length (filter (\<lambda>r. order r = 0) (results p)))"
proof -
  from process_all_questions_returns [OF assms(1), of run post]
  obtain os b where len: "length os = length questions"
    and each: "\<And>i. i < length questions \<Longrightarrow>
          fst (grade_single_question (run i) (questions ! i)) = Some (os ! i)
          \<and> question_id (os ! i) = order_of (questions ! i)
          \<and> order (os ! i) = order_of (questions ! i)"
    and b: "b = \<lparr>results = sort_key order os, metadata = summary questions (sort_key order os),
           webhook_sent = None\<rparr>"
    and p: "process_all_questions completion run post questions =
        Inr (b\<lparr>webhook_sent := Some (fst (send_attempts post b [0..<MAX_RETRIES]))\<rparr>,
             snd (send_attempts post b [0..<MAX_RETRIES]))"
    by blast
  let ?p = "b\<lparr>webhook_sent := Some (fst (send_attempts post b [0..<MAX_RETRIES]))\<rparr>"
  have res: "results ?p = sort_key order os" by (simp add: b)
  have zero: "order_of (questions ! i) = 0"
    using assms(3) by (simp add: order_of_def)
  have r: "fst (grade_single_question (run i) (questions ! i)) = Some (os ! i)"
    "order (os ! i) = 0" "question_id (os ! i) = 0"
    using each [OF assms(2)] zero by simp_all
  have mem: "os ! i \<in> set (results ?p)"
    unfolding res using assms(2) len by simp
  have two: "2 \<le> length (filter (\<lambda>r. order r = 0) (results ?p))"
    if j: "j < length questions" and o: "q_order (questions ! j) = Some 0" for j
  proof -
    from o assms(3) have ne: "i \<noteq> j" by auto
    from each [OF j] o have "order (os ! j) = 0" by (simp add: order_of_def)
    with r(2) ne j assms(2) len
    have "2 \<le> length (filter (\<lambda>r. order r = 0) os)"
      by (intro two_in_filter [of i os j]) simp_all
    moreover have "mset (filter (\<lambda>r. order r = 0) (sort_key order os))
        = mset (filter (\<lambda>r. order r = 0) os)"
      by simp
    then have "length (filter (\<lambda>r. order r = 0) (sort_key order os))
        = length (filter (\<lambda>r. order r = 0) os)"
      by (metis size_mset)
    ultimately show ?thesis unfolding res by simp
  qed
  from p r mem two show ?thesis by blast
qed

theorem missing_order_is_zero_witness:
  "mset [1, 0] = mset [0..<length [\<lparr>q_order = None, q_points_possible = None\<rparr>,
                                  \<lparr>q_order = Some 0, q_points_possible = None\<rparr>]]
   \<and> (0::nat) < length [\<lparr>q_order = None, q_points_possible = None\<rparr>,
                        \<lparr>q_order = Some 0, q_points_possible = None\<rparr>]
   \<and> q_order ([\<lparr>q_order = None, q_points_possible = None\<rparr>,
                \<lparr>q_order = Some 0, q_points_possible = None\<rparr>] ! 0) = None
   \<and> q_order ([\<lparr>q_order = None, q_points_possible = None\<rparr>,
                \<lparr>q_order = Some 0, q_points_possible = None\<rparr>] ! 1) = Some 0
   \<and> (\<exists>p evs r.
         process_all_questions [1, 0] (\<lambda>i k. TimedOut) (\<lambda>k. Response 200)
           [\<lparr>q_order = None, q_points_possible = None\<rparr>,
            \<lparr>q_order = Some 0, q_points_possible = None\<rparr>] = Inr (p, evs)
         \<and> fst (grade_single_question (\<lambda>k. TimedOut) \<lparr>q_order = None, q_points_possible = None\<rparr>)
             = Some r
         \<and> order r = 0 \<and> question_id r = 0 \<and> r \<in> set (results p)
         \<and> 2 \<le> length (filter (\<lambda>r. order r = 0) (results p)))"
proof -
  let ?qs = "[\<lparr>q_order = None, q_points_possible = None\<rparr>,
              \<lparr>q_order = Some 0, q_points_possible = None\<rparr>]"
  have perm: "mset [1, 0] = mset [0..<length ?qs]"
    by (simp add: upt_rec)
  have i: "(0::nat) < length ?qs" by simp
  have n: "q_order (?qs ! 0) = None" by simp
  have z: "q_order (?qs ! 1) = Some 0" by simp
  from missing_order_is_zero [OF perm i n, of "\<lambda>i k. TimedOut" "\<lambda>k. Response 200"]
  obtain p evs r where
    p: "process_all_questions [1, 0] (\<lambda>i k. TimedOut) (\<lambda>k. Response 200) ?qs = Inr (p, evs)"
    and r: "fst (grade_single_question (\<lambda>k. TimedOut) (?qs ! 0)) = Some r"
      "order r = 0" "question_id r = 0" "r \<in> set (results p)"
    and c: "\<forall>j<length ?qs. q_order (?qs ! j) = Some 0
          \<longrightarrow> 2 \<le> length (filter (\<lambda>r. order r = 0) (results p))"
    by blast
  from c z have two: "2 \<le> length (filter (\<lambda>r. order r = 0) (results p))"
    by (metis One_nat_def length_Cons lessI list.size(3))
  from r(1) have r': "fst (grade_single_question (\<lambda>k. TimedOut)
      \<lparr>q_order = None, q_points_possible = None\<rparr>) = Some r"
    by simp
  show ?thesis
    by (intro conjI exI [of _ p] exI [of _ evs] exI [of _ r])
       (rule perm i n z p r' r(2) r(3) r(4) two)+
qed

subsection \<open>The span between the braces\<close>

lemma find_first: "c \<notin> set xs \<Longrightarrow> str_find c (xs @ c # ys) = int (length xs)"
  by (induction xs) (auto simp: Let_def)

lemma rfind_last: "c \<notin> set ys \<Longrightarrow> str_rfind c (xs @ c # ys) = int (length xs)"
proof -
  assume "c \<notin> set ys"
  then have "str_find c (rev ys @ c # rev xs) = int (length ys)"
    using find_first [of c "rev ys" "rev xs"] by simp
  then show ?thesis by (simp add: str_rfind_def Let_def)
qed

lemma not_space_braces: "\<not> is_space CHR ''{''" "\<not> is_space CHR ''}''"
  by (simp_all add: is_space_def)

lemma strip_embedded:
  "strip (pre @ CHR ''{'' # mid @ CHR ''}'' # post) =
     dropWhile is_space pre @ CHR ''{'' # mid @ CHR ''}'' # rev (dropWhile is_space (rev post))"
proof -
  have "dropWhile is_space (pre @ CHR ''{'' # mid @ CHR ''}'' # post)
      = dropWhile is_space pre @ CHR ''{'' # mid @ CHR ''}'' # post"
    by (simp add: dropWhile_append3 not_space_braces)
  moreover have "dropWhile is_space
        (rev post @ CHR ''}'' # rev (dropWhile is_space pre @ CHR ''{'' # mid))
      = dropWhile is_space (rev post) @ CHR ''}'' # rev (dropWhile is_space pre @ CHR ''{'' # mid)"
    by (simp only: dropWhile_append3 not_space_braces not_False_eq_True)
  ultimately show ?thesis by (simp add: strip_def)
qed

lemma json_span_embedded:
  assumes "CHR ''{'' \<notin> set pre" and "CHR ''}'' \<notin> set post"
  shows "json_span (pre @ CHR ''{'' # mid @ CHR ''}'' # post) = Some (CHR ''{'' # mid @ ''}'')"
proof -
  let ?pre = "dropWhile is_space pre"
  let ?post = "rev (dropWhile is_space (rev post))"
  let ?s = "?pre @ CHR ''{'' # mid @ CHR ''}'' # ?post"
  have pre: "CHR ''{'' \<notin> set ?pre"
    using assms(1) by (meson set_dropWhileD)
  have post: "CHR ''}'' \<notin> set ?post"
    using assms(2) by (metis set_dropWhileD set_rev)
  have f: "str_find CHR ''{'' ?s = int (length ?pre)"
    using pre by (rule find_first)
  have "str_rfind CHR ''}'' ((?pre @ CHR ''{'' # mid) @ CHR ''}'' # ?post)
      = int (length (?pre @ CHR ''{'' # mid))"
    using post by (rule rfind_last)
  then have r: "str_rfind CHR ''}'' ?s = int (length ?pre) + int (length mid) + 1"
    by simp
  have sl: "slice ?s (int (length ?pre)) (int (length ?pre) + int (length mid) + 1 + 1)
      = CHR ''{'' # mid @ ''}''"
    by (simp add: slice_def nat_add_distrib)
  show ?thesis
    unfolding json_span_def strip_embedded Let_def f r sl by simp
qed

text \<open>
  C8, as the server does it.  The span runs from the first \<^verbatim>\<open>{\<close> to the last \<^verbatim>\<open>}\<close> of
  the whole response.  A text that starts with \<^verbatim>\<open>{\<close> and ends with \<^verbatim>\<open>}\<close>, embedded in
  leading prose without \<^verbatim>\<open>{\<close> and trailing prose without \<^verbatim>\<open>}\<close>, is parsed to the same
  result as the text alone.
\<close>

theorem embedded_object_same_result:
  assumes "CHR ''{'' \<notin> set pre" and "CHR ''}'' \<notin> set post"
  shows "parse_agent_response (pre @ CHR ''{'' # mid @ CHR ''}'' # post) ord =
         parse_agent_response (CHR ''{'' # mid @ ''}'') ord"
proof -
  have "json_span (CHR ''{'' # mid @ ''}'') = Some (CHR ''{'' # mid @ ''}'')"
    using json_span_embedded [of "[]" "[]" mid] by simp
  with json_span_embedded [OF assms, of mid] show ?thesis
    by (simp add: parse_agent_response_def)
qed

theorem embedded_object_same_result_witness:
  "CHR ''{'' \<notin> set ''The grade: '' \<and> CHR ''}'' \<notin> set '' Thanks.''
   \<and> parse_agent_response
        (''The grade: '' @ CHR ''{'' # (quoted ''points_earned'' @ '': 2'') @ CHR ''}'' # '' Thanks.'') 0
     = parse_agent_response (CHR ''{'' # (quoted ''points_earned'' @ '': 2'') @ ''}'') 0"
proof -
  have 1: "CHR ''{'' \<notin> set ''The grade: ''" by simp
  have 2: "CHR ''}'' \<notin> set '' Thanks.''" by simp
  from embedded_object_same_result [OF 1 2] 1 2 show ?thesis by blast
qed

text \<open>
  C8 as the specification states it fails: prose that itself holds a brace widens the
  span, the wider text does not decode, and the default result comes back instead of the
  fields of the object.
\<close>

theorem embedded_object_counterexample:
  "json_loads (''{'' @ quoted ''points_earned'' @ '': 2}'')
     = Some (JObj [(''points_earned'', JInt 2)])
   \<and> parse_agent_response (''{'' @ quoted ''points_earned'' @ '': 2}'') 0
     = Inr \<lparr>question_id = 0, order = 0, points_earned = JFloat (Finite 2),
            points_possible = JFloat (Finite 3), feedback = JStr [], correct_answer = JStr []\<rparr>
   \<and> parse_agent_response
       (''Result {final}: '' @ (''{'' @ quoted ''points_earned'' @ '': 2}'') @ '' done.'') 0
     = Inr \<lparr>question_id = 0, order = 0, points_earned = JInt 0, points_possible = JInt 3,
            feedback = JStr fallback_feedback, correct_answer = JStr []\<rparr>"
proof -
  have span: "json_span (''{'' @ quoted ''points_earned'' @ '': 2}'')
      = Some (''{'' @ quoted ''points_earned'' @ '': 2}'')"
    by code_simp
  have loads: "json_loads (''{'' @ quoted ''points_earned'' @ '': 2}'')
      = Some (JObj [(''points_earned'', JInt 2)])"
    by code_simp
  have 1: "parse_agent_response (''{'' @ quoted ''points_earned'' @ '': 2}'') 0
     = Inr \<lparr>question_id = 0, order = 0, points_earned = JFloat (Finite 2),
            points_possible = JFloat (Finite 3), feedback = JStr [], correct_answer = JStr []\<rparr>"
    using span loads
    by (simp add: parse_agent_response_def dict_get_def py_float_def float_limit_def)
  have span': "json_span
       (''Result {final}: '' @ (''{'' @ quoted ''points_earned'' @ '': 2}'') @ '' done.'')
      = Some (''{final}: {'' @ quoted ''points_earned'' @ '': 2}'')"
    by code_simp
  have loads': "json_loads (''{final}: {'' @ quoted ''points_earned'' @ '': 2}'') = None"
    by code_simp
  have 2: "parse_agent_response
       (''Result {final}: '' @ (''{'' @ quoted ''points_earned'' @ '': 2}'') @ '' done.'') 0
     = Inr \<lparr>question_id = 0, order = 0, points_earned = JInt 0, points_possible = JInt 3,
            feedback = JStr fallback_feedback, correct_answer = JStr []\<rparr>"
    using span' loads'
    by (simp add: parse_agent_response_def default_grade_def)
  from loads 1 2 show ?thesis by blast
qed




subsection \<open>Delivery\<close>

lemma send_attempts_all:
  "send_attempts post b [0..<MAX_RETRIES] =
     (if posted_ok (post 0) then (True, [Post b])
      else if posted_ok (post 1) then (True, [Post b, Delay RETRY_DELAY, Post b])
      else (posted_ok (post 2),
            [Post b, Delay RETRY_DELAY, Post b, Delay RETRY_DELAY, Post b]))"
  unfolding range_MAX_RETRIES by (simp add: MAX_RETRIES_def)

lemma some_posted_ok:
  "(\<exists>k<MAX_RETRIES. posted_ok (post k)) =
     (posted_ok (post 0) \<or> posted_ok (post 1) \<or> posted_ok (post 2))"
proof -
  have "k < MAX_RETRIES \<longleftrightarrow> k = 0 \<or> k = 1 \<or> k = 2" for k
    by (auto simp: MAX_RETRIES_def)
  then show ?thesis by auto
qed

lemma send_attempts_facts:
  assumes "send_attempts post b [0..<MAX_RETRIES] = (ok, evs)"
  shows "ok = (\<exists>k<MAX_RETRIES. posted_ok (post k))"
    and "set (posts evs) = {b}"
    and "length (posts evs) \<le> MAX_RETRIES"
    and "\<forall>d\<in>set (delays evs). d = RETRY_DELAY"
    and "length (delays evs) = length (posts evs) - 1"
    and "ok \<longrightarrow> posted_ok (post (length (posts evs) - 1))
           \<and> (\<forall>k<length (posts evs) - 1. \<not> posted_ok (post k))"
    and "\<not> ok \<longrightarrow> length (posts evs) = MAX_RETRIES"
  using assms unfolding send_attempts_all some_posted_ok
  by (auto simp: MAX_RETRIES_def less_Suc_eq numeral_2_eq_2 split: if_splits)

text \<open>
  C6. The delivery loop makes at most \<open>MAX_RETRIES\<close> POSTs, sleeps \<open>RETRY_DELAY\<close>
  seconds between two of them (the same delay each time, and none after the last POST),
  and stops at the first POST that is answered with a 2xx status.  Every failure of a
  POST is caught, so the function returns; \<open>webhook_sent\<close> of the payload it returns
  tells whether one of the POSTs was answered with a 2xx status.
\<close>

theorem delivery_retries:
  assumes "mset completion = mset [0..<length questions]"
  shows "\<exists>p evs. process_all_questions completion run post questions = Inr (p, evs)
    \<and> length (posts evs) \<le> MAX_RETRIES
    \<and> (\<forall>d\<in>set (delays evs). d = RETRY_DELAY)
    \<and> length (delays evs) = length (posts evs) - 1
    \<and> webhook_sent p = Some (\<exists>k<MAX_RETRIES. posted_ok (post k))
    \<and> ((\<exists>k<MAX_RETRIES. posted_ok (post k)) \<longrightarrow>
          posted_ok (post (length (posts evs) - 1))
          \<and> (\<forall>k<length (posts evs) - 1. \<not> posted_ok (post k)))
    \<and> ((\<forall>k<MAX_RETRIES. \<not> posted_ok (post k)) \<longrightarrow> length (posts evs) = MAX_RETRIES)"
proof -
  from process_all_questions_returns [OF assms, of run post]
  obtain b where
    p: "process_all_questions completion run post questions =
        Inr (b\<lparr>webhook_sent := Some (fst (send_attempts post b [0..<MAX_RETRIES]))\<rparr>,
             snd (send_attempts post b [0..<MAX_RETRIES]))"
    by blast
  obtain ok evs where s: "send_attempts post b [0..<MAX_RETRIES] = (ok, evs)"
    by (cases "send_attempts post b [0..<MAX_RETRIES]")
  note f = send_attempts_facts [OF s]
  have "webhook_sent (b\<lparr>webhook_sent := Some ok\<rparr>) = Some (\<exists>k<MAX_RETRIES. posted_ok (post k))"
    using f(1) by simp
  moreover have "process_all_questions completion run post questions =
      Inr (b\<lparr>webhook_sent := Some ok\<rparr>, evs)"
    using p s by simp
  ultimately show ?thesis
    using f(1,3,4,5,6,7) by blast
qed

theorem delivery_retries_witness:
  "mset [0] = mset [0..<length [\<lparr>q_order = Some 0, q_points_possible = None\<rparr>]]
   \<and> \<not> posted_ok (Response 500) \<and> posted_ok (Response 200)
   \<and> (\<exists>p evs. process_all_questions [0] (\<lambda>i k. TimedOut)
                  (\<lambda>k. if k < 2 then Response 500 else Response 200)
                  [\<lparr>q_order = Some 0, q_points_possible = None\<rparr>] = Inr (p, evs)
          \<and> webhook_sent p = Some True \<and> length (posts evs) = 3 \<and> length (delays evs) = 2)
   \<and> (\<exists>p evs. process_all_questions [0] (\<lambda>i k. TimedOut) (\<lambda>k. Response 500)
                  [\<lparr>q_order = Some 0, q_points_possible = None\<rparr>] = Inr (p, evs)
          \<and> webhook_sent p = Some False \<and> length (posts evs) = MAX_RETRIES)"
proof -
  let ?qs = "[\<lparr>q_order = Some 0, q_points_possible = None\<rparr>]"
  let ?post = "\<lambda>k::nat. if k < 2 then Response 500 else Response 200"
  have perm: "mset [0] = mset [0..<length ?qs]" by simp
  have no: "\<not> posted_ok (Response 500)" and yes: "posted_ok (Response 200)"
    by (simp_all add: posted_ok_def)
  have some: "\<exists>k<MAX_RETRIES. posted_ok (?post k)"
    by (rule exI [of _ 2]) (simp add: MAX_RETRIES_def posted_ok_def)
  have none: "\<forall>k<MAX_RETRIES. \<not> posted_ok ((\<lambda>k. Response 500) k)"
    by (simp add: posted_ok_def)
  from delivery_retries [OF perm, of "\<lambda>i k. TimedOut" ?post]
  obtain p evs where
    p: "process_all_questions [0] (\<lambda>i k. TimedOut) ?post ?qs = Inr (p, evs)"
    and le: "length (posts evs) \<le> MAX_RETRIES"
    and dl: "length (delays evs) = length (posts evs) - 1"
    and w: "webhook_sent p = Some (\<exists>k<MAX_RETRIES. posted_ok (?post k))"
    and st: "(\<exists>k<MAX_RETRIES. posted_ok (?post k)) \<longrightarrow>
          posted_ok (?post (length (posts evs) - 1))"
    by blast
  from st some have "posted_ok (?post (length (posts evs) - 1))" by blast
  then have "\<not> length (posts evs) - 1 < 2"
    using no by (auto split: if_splits)
  with le have three: "length (posts evs) = 3"
    by (simp add: MAX_RETRIES_def)
  from w some have sent: "webhook_sent p = Some True" by simp
  from dl three have two: "length (delays evs) = 2" by simp
  from delivery_retries [OF perm, of "\<lambda>i k. TimedOut" "\<lambda>k. Response 500"]
  obtain p' evs' where
    p': "process_all_questions [0] (\<lambda>i k. TimedOut) (\<lambda>k. Response 500) ?qs = Inr (p', evs')"
    and w': "webhook_sent p' = Some (\<exists>k<MAX_RETRIES. posted_ok ((\<lambda>k. Response 500) k))"
    and ex: "(\<forall>k<MAX_RETRIES. \<not> posted_ok ((\<lambda>k. Response 500) k))
         \<longrightarrow> length (posts evs') = MAX_RETRIES"
    by blast
  from w' have unsent: "webhook_sent p' = Some False" by (simp add: posted_ok_def)
  from ex none have all: "length (posts evs') = MAX_RETRIES" by blast
  have a: "\<exists>p evs. process_all_questions [0] (\<lambda>i k. TimedOut) ?post ?qs = Inr (p, evs)
          \<and> webhook_sent p = Some True \<and> length (posts evs) = 3 \<and> length (delays evs) = 2"
    using p sent three two by blast
  have b: "\<exists>p evs. process_all_questions [0] (\<lambda>i k. TimedOut) (\<lambda>k. Response 500) ?qs
            = Inr (p, evs)
          \<and> webhook_sent p = Some False \<and> length (posts evs) = MAX_RETRIES"
    using p' unsent all by blast
  show ?thesis
    by (intro conjI) (rule perm no yes a b)+
qed

text \<open>
  C7, as the server does it.  The body of every POST has the two keys \<open>results\<close> and
  \<open>metadata\<close>, with the results and the metadata of the payload that is returned.  The
  key \<open>webhook_sent\<close> is set after the loop, in the returned payload only.
\<close>

theorem posted_body_keys:
  assumes "mset completion = mset [0..<length questions]"
  shows "\<exists>p evs. process_all_questions completion run post questions = Inr (p, evs)
    \<and> posts evs \<noteq> []
    \<and> (\<forall>body\<in>set (posts evs).
          payload_keys body = [''results'', ''metadata'']
          \<and> results body = results p \<and> metadata body = metadata p)
    \<and> payload_keys p = [''results'', ''metadata'', ''webhook_sent'']"
proof -
  from process_all_questions_returns [OF assms, of run post]
  obtain os b where
    b: "b = \<lparr>results = sort_key order os, metadata = summary questions (sort_key order os),
           webhook_sent = None\<rparr>"
    and p: "process_all_questions completion run post questions =
        Inr (b\<lparr>webhook_sent := Some (fst (send_attempts post b [0..<MAX_RETRIES]))\<rparr>,
             snd (send_attempts post b [0..<MAX_RETRIES]))"
    by blast
  obtain ok evs where s: "send_attempts post b [0..<MAX_RETRIES] = (ok, evs)"
    by (cases "send_attempts post b [0..<MAX_RETRIES]")
  have bodies: "set (posts evs) = {b}"
    by (rule send_attempts_facts(2) [OF s])
  then have "posts evs \<noteq> []" by auto
  moreover have "payload_keys b = [''results'', ''metadata'']"
    by (simp add: payload_keys_def b)
  moreover have "payload_keys (b\<lparr>webhook_sent := Some ok\<rparr>)
      = [''results'', ''metadata'', ''webhook_sent'']"
    by (simp add: payload_keys_def)
  moreover have "process_all_questions completion run post questions =
      Inr (b\<lparr>webhook_sent := Some ok\<rparr>, evs)"
    using p s by simp
  ultimately show ?thesis
    using bodies by (intro exI [of _ "b\<lparr>webhook_sent := Some ok\<rparr>"] exI [of _ evs]) simp
qed

theorem posted_body_keys_witness:
  "mset [0] = mset [0..<length [\<lparr>q_order = Some 0, q_points_possible = None\<rparr>]]
   \<and> (\<exists>p evs. process_all_questions [0] (\<lambda>i k. TimedOut) (\<lambda>k. Response 200)
                  [\<lparr>q_order = Some 0, q_points_possible = None\<rparr>] = Inr (p, evs)
          \<and> posts evs \<noteq> []
          \<and> (\<forall>body\<in>set (posts evs).
                payload_keys body = [''results'', ''metadata'']
                \<and> results body = results p \<and> metadata body = metadata p)
          \<and> payload_keys p = [''results'', ''metadata'', ''webhook_sent''])"
proof -
  have perm: "mset [0] = mset [0..<length [\<lparr>q_order = Some 0, q_points_possible = None\<rparr>]]"
    by simp
  from posted_body_keys [OF perm, of "\<lambda>i k. TimedOut" "\<lambda>k. Response 200"] perm
  show ?thesis by blast
qed

text \<open>
  C7 as the specification states it fails: the one body that is posted in this run has
  no key \<open>webhook_sent\<close>.
\<close>

theorem posted_body_counterexample:
  "(case process_all_questions [0] (\<lambda>i k. TimedOut) (\<lambda>k. Response 200)
           [\<lparr>q_order = Some 0, q_points_possible = None\<rparr>] of
      Inl e \<Rightarrow> []
    | Inr (p, evs) \<Rightarrow> map payload_keys (posts evs)) = [[''results'', ''metadata'']]"
proof -
  have perm: "mset [0] = mset [0..<length [\<lparr>q_order = Some 0, q_points_possible = None\<rparr>]]"
    by simp
  from process_all_questions_returns [OF perm, of "\<lambda>i k. TimedOut" "\<lambda>k. Response 200"]
  obtain os b where
    b: "b = \<lparr>results = sort_key order os,
             metadata = summary [\<lparr>q_order = Some 0, q_points_possible = None\<rparr>]
                          (sort_key order os),
             webhook_sent = None\<rparr>"
    and p: "process_all_questions [0] (\<lambda>i k. TimedOut) (\<lambda>k. Response 200)
           [\<lparr>q_order = Some 0, q_points_possible = None\<rparr>] =
        Inr (b\<lparr>webhook_sent :=
                 Some (fst (send_attempts (\<lambda>k. Response 200) b [0..<MAX_RETRIES]))\<rparr>,
             snd (send_attempts (\<lambda>k. Response 200) b [0..<MAX_RETRIES]))"
    by blast
  have "send_attempts (\<lambda>k. Response 200) b [0..<MAX_RETRIES] = (True, [Post b])"
    by (simp add: send_attempts_all posted_ok_def)
  moreover have "payload_keys b = [''results'', ''metadata'']"
    by (simp add: payload_keys_def b)
  ultimately show ?thesis
    using p by simp
qed

subsection \<open>The semaphore\<close>

lemma count_update:
  "i < length xs \<Longrightarrow>
   length (filter P (xs[i := y])) + (if P (xs ! i) then 1 else 0)
     = length (filter P xs) + (if P y then 1 else 0)"
proof (induction xs arbitrary: i)
  case Nil
  then show ?case by simp
next
  case (Cons x xs)
  then show ?case by (cases i) auto
qed

lemma count_le: "(\<And>x. P x \<Longrightarrow> Q x) \<Longrightarrow> length (filter P xs) \<le> length (filter Q xs)"
  by (induction xs) auto

lemma balanced_init: "balanced (init_sched n)"
  by (simp add: balanced_def init_sched_def holding_def)

lemma balanced_step:
  assumes "step a s = Some s'" and "balanced s"
  shows "balanced s'"
proof (cases a)
  case (Acquire i)
  with assms(1) have i: "i < length (phases s)" "phases s ! i = Waiting" "0 < permits s"
    and s': "s' = move (s\<lparr>permits := permits s - 1\<rparr>) i (Running 0)"
    by (auto simp: phase_of_def split: if_splits)
  from count_update [OF i(1), of holding "Running 0"] i(2)
  have "length (filter holding ((phases s)[i := Running 0]))
      = length (filter holding (phases s)) + 1"
    by (simp add: holding_def)
  with assms(2) i(3) show ?thesis
    by (simp add: balanced_def s' move_def)
next
  case (Succeed i)
  with assms(1) obtain k where i: "i < length (phases s)" "phases s ! i = Running k"
    and s': "s' = release (move s i Finished)"
    by (auto simp: phase_of_def split: if_splits option.splits phase.splits)
  from count_update [OF i(1), of holding Finished] i(2)
  have "length (filter holding ((phases s)[i := Finished])) + 1
      = length (filter holding (phases s))"
    by (simp add: holding_def)
  with assms(2) show ?thesis
    by (simp add: balanced_def s' move_def release_def)
next
  case (Fail i)
  with assms(1) obtain k where i: "i < length (phases s)" "phases s ! i = Running k"
    and s': "s' = (if k < MAX_RETRIES - 1 then move s i (Sleeping k)
                   else release (move s i Finished))"
    by (auto simp: phase_of_def split: if_splits option.splits phase.splits)
  from count_update [OF i(1), of holding Finished] i(2)
  have f: "length (filter holding ((phases s)[i := Finished])) + 1
      = length (filter holding (phases s))"
    by (simp add: holding_def)
  from count_update [OF i(1), of holding "Sleeping k"] i(2)
  have "length (filter holding ((phases s)[i := Sleeping k]))
      = length (filter holding (phases s))"
    by (simp add: holding_def)
  with f assms(2) show ?thesis
    by (simp add: balanced_def s' move_def release_def)
next
  case (Wake i)
  with assms(1) obtain k where i: "i < length (phases s)" "phases s ! i = Sleeping k"
    and s': "s' = move s i (Running (Suc k))"
    by (auto simp: phase_of_def split: if_splits option.splits phase.splits)
  from count_update [OF i(1), of holding "Running (Suc k)"] i(2)
  have "length (filter holding ((phases s)[i := Running (Suc k)]))
      = length (filter holding (phases s))"
    by (simp add: holding_def)
  with assms(2) show ?thesis
    by (simp add: balanced_def s' move_def)
qed

lemma balanced_exec: "exec acts s = Some s' \<Longrightarrow> balanced s \<Longrightarrow> balanced s'"
proof (induction acts arbitrary: s)
  case Nil
  then show ?case by simp
next
  case (Cons a acts)
  then show ?case
    by (auto split: option.splits dest: balanced_step)
qed

text \<open>
  C9. In every state that the tasks of a batch of any size can reach, at most
  \<open>MAX_PARALLEL_TASKS\<close> attempts are in flight: the free permits and the tasks inside
  the \<^verbatim>\<open>async with\<close> block always add up to \<open>MAX_PARALLEL_TASKS\<close>.  A task that leaves
  the block gives its permit back, both when its attempt succeeded and when its last
  attempt failed; a task cannot acquire the semaphore while no permit is free.
\<close>

theorem semaphore_bound:
  assumes "exec acts (init_sched n) = Some s"
  shows "length (filter in_flight (phases s)) \<le> MAX_PARALLEL_TASKS
    \<and> permits s + length (filter holding (phases s)) = MAX_PARALLEL_TASKS
    \<and> (\<forall>i s'. step (Succeed i) s = Some s'
          \<longrightarrow> permits s' = permits s + 1 \<and> phase_of s' i = Some Finished)
    \<and> (\<forall>i s'. step (Fail i) s = Some s' \<and> phase_of s' i = Some Finished
          \<longrightarrow> permits s' = permits s + 1)
    \<and> (\<forall>i. permits s = 0 \<longrightarrow> step (Acquire i) s = None)"
proof -
  from balanced_exec [OF assms balanced_init]
  have b: "permits s + length (filter holding (phases s)) = MAX_PARALLEL_TASKS"
    by (simp add: balanced_def)
  have "length (filter in_flight (phases s)) \<le> length (filter holding (phases s))"
    by (rule count_le) (auto simp: in_flight_def holding_def split: phase.splits)
  with b have 1: "length (filter in_flight (phases s)) \<le> MAX_PARALLEL_TASKS"
    by simp
  have 2: "permits s' = permits s + 1 \<and> phase_of s' i = Some Finished"
    if "step (Succeed i) s = Some s'" for i s'
    using that
    by (auto simp: phase_of_def move_def release_def split: if_splits option.splits phase.splits)
  have 3: "permits s' = permits s + 1"
    if "step (Fail i) s = Some s' \<and> phase_of s' i = Some Finished" for i s'
    using that
    by (auto simp: phase_of_def move_def release_def split: if_splits option.splits phase.splits)
  have 4: "step (Acquire i) s = None" if "permits s = 0" for i
    using that by simp
  from 1 b 2 3 4 show ?thesis by blast
qed

theorem semaphore_bound_witness:
  "exec [Acquire 0, Acquire 1, Acquire 2, Acquire 3, Fail 2, Succeed 0, Acquire 5]
     (init_sched 6) =
     Some \<lparr>permits = 0,
           phases = [Finished, Running 0, Sleeping 0, Running 0, Waiting, Running 0]\<rparr>
   \<and> length (filter in_flight
        [Finished, Running 0, Sleeping 0, Running 0, Waiting, Running 0]) \<le> MAX_PARALLEL_TASKS
   \<and> step (Acquire 4)
        \<lparr>permits = 0,
         phases = [Finished, Running 0, Sleeping 0, Running 0, Waiting, Running 0]\<rparr> = None
   \<and> step (Succeed 1)
        \<lparr>permits = 0,
         phases = [Finished, Running 0, Sleeping 0, Running 0, Waiting, Running 0]\<rparr> =
       Some \<lparr>permits = 1,
             phases = [Finished, Finished, Sleeping 0, Running 0, Waiting, Running 0]\<rparr>"
proof -
  let ?s = "\<lparr>permits = 0,
            phases = [Finished, Running 0, Sleeping 0, Running 0, Waiting, Running 0]\<rparr>"
  have e: "exec [Acquire 0, Acquire 1, Acquire 2, Acquire 3, Fail 2, Succeed 0, Acquire 5]
     (init_sched 6) = Some ?s"
    by (simp add: init_sched_def MAX_PARALLEL_TASKS_def MAX_RETRIES_def phase_of_def move_def
        release_def numeral_nat)
  from semaphore_bound [OF e]
  have "length (filter in_flight (phases ?s)) \<le> MAX_PARALLEL_TASKS"
    and "permits ?s = 0 \<longrightarrow> step (Acquire 4) ?s = None"
    by blast+
  moreover have "step (Succeed 1) ?s =
       Some \<lparr>permits = 1,
             phases = [Finished, Finished, Sleeping 0, Running 0, Waiting, Running 0]\<rparr>"
    by (simp add: phase_of_def move_def release_def)
  ultimately show ?thesis using e by simp
qed


end
